theory Spec2Isabelle
  imports Main "HOL-Library.AList"
begin

section \<open>Python values used by the callback containers\<close>

text \<open>
  The exceptions that the modelled functions of \<^verbatim>\<open>_cb_container.py\<close> can raise.
  \<open>NameError\<close> stands for Python's \<^verbatim>\<open>UnboundLocalError\<close>, which is a subclass of it.
\<close>

datatype error = AssertionError | ValueError | IndexError | NameError

subsection \<open>Strings\<close>

text \<open>\<^verbatim>\<open>s.startswith(p)\<close>\<close>

definition startswith :: "string \<Rightarrow> string \<Rightarrow> bool" where
  "startswith s p = (take (length p) s = p)"

text \<open>
  \<^verbatim>\<open>s.rsplit("_", 1)\<close>: split once at the last underscore; a string without an
  underscore comes back whole, as a list of one element.
\<close>

definition rsplit1 :: "string \<Rightarrow> string list" where
  "rsplit1 s =
     (let r = rev s;
          suffix = takeWhile (\<lambda>c. c \<noteq> CHR ''_'') r;
          rest = dropWhile (\<lambda>c. c \<noteq> CHR ''_'') r
      in if rest = [] then [s] else [rev (tl rest), rev suffix])"

text \<open>
  \<^verbatim>\<open>s.split("__")\<close>: split at every occurrence of the separator, scanning from
  the left without overlaps.
\<close>

fun split_sep :: "string \<Rightarrow> string list" where
  "split_sep [] = [[]]"
| "split_sep [c] = [[c]]"
| "split_sep (a # b # cs) =
     (if a = CHR ''_'' \<and> b = CHR ''_'' then [] # split_sep cs
      else (case split_sep (b # cs) of
              [] \<Rightarrow> [[a]]
            | p # ps \<Rightarrow> (a # p) # ps))"

text \<open>\<^verbatim>\<open>str(i)\<close> for an integer, and \<^verbatim>\<open>f"{i}"\<close>: the decimal numeral.\<close>

definition digit_char :: "nat \<Rightarrow> char" where
  "digit_char d = char_of (48 + d)"

function digits :: "nat \<Rightarrow> string" where
  "digits n = (if n < 10 then [digit_char n] else digits (n div 10) @ [digit_char (n mod 10)])"
  by pat_completeness auto
termination
  by (relation "measure id") auto

declare digits.simps [simp del]

definition py_str :: "int \<Rightarrow> string" where
  "py_str i = (if i < 0 then CHR ''-'' # digits (nat (- i)) else digits (nat i))"

text \<open>
  \<^verbatim>\<open>int(s)\<close> on decimal numerals: an optional minus sign and at least one ASCII
  digit; anything else is a \<open>ValueError\<close>. (Python also accepts a plus sign, surrounding
  white space and underscores between digits; no string that \<open>py_str\<close> produces has them.)
\<close>

definition digit_val :: "char \<Rightarrow> nat option" where
  "digit_val c =
     (let k = of_char c :: nat in if 48 \<le> k \<and> k \<le> 57 then Some (k - 48) else None)"

fun nat_of_digits :: "nat \<Rightarrow> string \<Rightarrow> nat option" where
  "nat_of_digits acc [] = Some acc"
| "nat_of_digits acc (c # cs) =
     (case digit_val c of
        None \<Rightarrow> None
      | Some d \<Rightarrow> nat_of_digits (10 * acc + d) cs)"

definition py_int :: "string \<Rightarrow> error + int" where
  "py_int s =
     (case s of
        [] \<Rightarrow> Inl ValueError
      | c # cs \<Rightarrow>
          if c = CHR ''-'' then
            (if cs = [] then Inl ValueError
             else (case nat_of_digits 0 cs of
                     None \<Rightarrow> Inl ValueError
                   | Some n \<Rightarrow> Inr (- int n)))
          else (case nat_of_digits 0 s of
                  None \<Rightarrow> Inl ValueError
                | Some n \<Rightarrow> Inr (int n)))"

subsection \<open>Dictionaries\<close>

text \<open>
  A \<^verbatim>\<open>dict\<close> is an association list in insertion order: \<open>map_of\<close> looks a key up,
  \<open>AList.update\<close> is \<^verbatim>\<open>d[k] = v\<close> (in place for a key that exists, at the end for a new
  one) and \<open>AList.delete\<close> is \<^verbatim>\<open>del d[k]\<close>. A \<^verbatim>\<open>defaultdict\<close> adds the
  indexing \<^verbatim>\<open>d[k]\<close> that stores the default under a missing key.
\<close>

definition dd_get :: "'a \<Rightarrow> ('k \<times> 'a) list \<Rightarrow> 'k \<Rightarrow> 'a \<times> ('k \<times> 'a) list" where
  "dd_get dflt d k =
     (case map_of d k of
        Some v \<Rightarrow> (v, d)
      | None \<Rightarrow> (dflt, d @ [(k, dflt)]))"

section \<open>Callback entries and containers\<close>

text \<open>
  The first argument of \<^verbatim>\<open>_add_callback\<close>: the name of a pre-defined callback, or a
  callable, of which the container only reads \<^verbatim>\<open>__name__\<close>.
\<close>

datatype callback = Name string | Callable string

text \<open>
  A stored entry is \<^verbatim>\<open>partial(callback, **kwargs)\<close>: the name of the resolved callable
  and the keyword arguments bound at attach time.
\<close>

datatype 'v partial = Partial string "(string \<times> 'v) list"

type_synonym 'v bucket = "(string \<times> 'v partial) list"

text \<open>
  \<^verbatim>\<open>_click_container._get.cbs\<close> is \<^verbatim>\<open>defaultdict(lambda: defaultdict(dict))\<close>:
  \<^verbatim>\<open>"single"\<close>/\<^verbatim>\<open>"double"\<close>, then the button, then the entry's key.
  \<^verbatim>\<open>keypress_container._get.cbs\<close> is \<^verbatim>\<open>defaultdict(dict)\<close>: the key string, then the
  entry's key.
\<close>

type_synonym 'v click_cbs = "(string \<times> (int \<times> 'v bucket) list) list"
type_synonym 'v keypress_cbs = "(string \<times> 'v bucket) list"

text \<open>
  The state of one container (\<^verbatim>\<open>_cb_container\<close>). The callback class
  (\<^verbatim>\<open>eomaps.callbacks\<close>) is not part of the sources at hand, so what the container reads
  of it is state: \<open>cb_attrs\<close> are the names \<open>n\<close> with \<^verbatim>\<open>hasattr(self._cb, n)\<close>
  (a pre-defined callback is bound under its own \<^verbatim>\<open>__name__\<close>), \<open>cb_list\<close> is
  \<^verbatim>\<open>cb_class._cb_list\<close>. \<open>fwd_cbs\<close> holds the keys of \<^verbatim>\<open>self._fwd_cbs\<close>, the
  identities of the peers; \<open>cleanups\<close> logs the cleanup hooks that \<^verbatim>\<open>remove\<close> has
  called, oldest first.
\<close>

record 'r container =
  cb_attrs :: "string list"
  cb_list :: "string list"
  cbs :: 'r
  fwd_cbs :: "nat list"
  cleanups :: "string list"

type_synonym 'v click_container = "'v click_cbs container"
type_synonym 'v keypress_container = "'v keypress_cbs container"

subsection \<open>Attaching\<close>

text \<open>
  The list comprehension
  \<^verbatim>\<open>[int(i.rsplit("_", 1)[1]) for i in d if i.startswith(callback.__name__)]\<close>
  over the keys of a bucket, with the exceptions of the indexing and of \<^verbatim>\<open>int\<close>.
\<close>

fun ncb_of :: "string \<Rightarrow> string list \<Rightarrow> error + int list" where
  "ncb_of name [] = Inr []"
| "ncb_of name (i # is) =
     (if startswith i name then
        (case rsplit1 i of
           [_, suffix] \<Rightarrow>
             (case py_int suffix of
                Inl e \<Rightarrow> Inl e
              | Inr n \<Rightarrow>
                  (case ncb_of name is of
                     Inl e \<Rightarrow> Inl e
                   | Inr ns \<Rightarrow> Inr (n # ns)))
         | _ \<Rightarrow> Inl IndexError)
      else ncb_of name is)"

text \<open>\<^verbatim>\<open>callback.__name__ + f"_{max(ncb) + 1 if len(ncb) > 0 else 0}"\<close>\<close>

definition cbkey_of :: "string \<Rightarrow> int list \<Rightarrow> string" where
  "cbkey_of name ncb =
     name @ ''_'' @ py_str (if length ncb > 0 then Max (set ncb) + 1 else 0)"

text \<open>
  The resolution of the callback argument, common to both \<^verbatim>\<open>_add_callback\<close>s:
  a string must name an attribute of the callback class (an assertion), a callable is
  re-bound to the map. The result is the \<^verbatim>\<open>__name__\<close> of the resolved callable.
\<close>

definition resolve :: "string list \<Rightarrow> callback \<Rightarrow> error + string" where
  "resolve attrs callback =
     (case callback of
        Name s \<Rightarrow> if s \<in> set attrs then Inr s else Inl AssertionError
      | Callable n \<Rightarrow> Inr n)"

definition multi_cb_functions :: "string list" where
  "multi_cb_functions = [''mark'', ''annotate'']"

definition ds_of :: "bool \<Rightarrow> string" where
  "ds_of double_click = (if double_click then ''double'' else ''single'')"

text \<open>
  \<^verbatim>\<open>self.get.cbs[ds][button]\<close> on the nested \<^verbatim>\<open>defaultdict\<close>: the bucket, and the
  dictionary with the levels that the indexing has created.
\<close>

definition get_bucket :: "string \<Rightarrow> int \<Rightarrow> 'v click_cbs \<Rightarrow> 'v bucket \<times> 'v click_cbs" where
  "get_bucket ds button r =
     (let (dsdict, r1) = dd_get [] r ds;
          (d, dsdict1) = dd_get [] dsdict button
      in (d, AList.update ds dsdict1 r1))"

text \<open>
  The bucket is held by reference, so \<^verbatim>\<open>d[cbkey] = ...\<close> and \<^verbatim>\<open>del bdict[name]\<close>
  change the nested dictionary; \<open>put_bucket\<close> writes the changed bucket back.
\<close>

definition put_bucket :: "string \<Rightarrow> int \<Rightarrow> 'v bucket \<Rightarrow> 'v click_cbs \<Rightarrow> 'v click_cbs" where
  "put_bucket ds button d r =
     (case map_of r ds of
        None \<Rightarrow> r
      | Some dsdict \<Rightarrow> AList.update ds (AList.update button d dsdict) r)"

text \<open>
  \<^verbatim>\<open>_click_container._add_callback(callback, double_click, button, **kwargs)\<close>.
  The result is the identity string or the exception, together with the container as it
  is left (the indexing of the \<^verbatim>\<open>defaultdict\<close> happens before the last assertion).
\<close>

definition click_add_callback ::
  "callback \<Rightarrow> bool \<Rightarrow> int \<Rightarrow> (string \<times> 'v) list \<Rightarrow> 'v click_container
   \<Rightarrow> (error + string) \<times> 'v click_container" where
  "click_add_callback callback double_click button kwargs c =
     (if \<not> (\<not> list_all (\<lambda>i. i \<in> fst ` set kwargs)
                       [''pos'', ''ID'', ''val'', ''double_click'', ''button''])
      then (Inl AssertionError, c)
      else
        (case resolve (cb_attrs c) callback of
           Inl e \<Rightarrow> (Inl e, c)
         | Inr name \<Rightarrow>
             (let (d, r1) = get_bucket (ds_of double_click) button (cbs c);
                  c1 = c\<lparr>cbs := r1\<rparr>
              in (case ncb_of name (map fst d) of
                    Inl e \<Rightarrow> (Inl e, c1)
                  | Inr ncb \<Rightarrow>
                      (let cbkey = cbkey_of name ncb
                       in if name \<notin> set multi_cb_functions \<and> length ncb \<noteq> 0
                          then (Inl AssertionError, c1)
                          else
                            (Inr (cbkey @ ''__'' @ ds_of double_click @ ''__'' @ py_str button),
                             c1\<lparr>cbs := put_bucket (ds_of double_click) button
                                          (AList.update cbkey (Partial name kwargs) d) r1\<rparr>))))))"

text \<open>\<^verbatim>\<open>keypress_container._add_callback(callback, key, **kwargs)\<close>\<close>

definition keypress_add_callback ::
  "callback \<Rightarrow> string \<Rightarrow> (string \<times> 'v) list \<Rightarrow> 'v keypress_container
   \<Rightarrow> (error + string) \<times> 'v keypress_container" where
  "keypress_add_callback callback key kwargs c =
     (case resolve (cb_attrs c) callback of
        Inl e \<Rightarrow> (Inl e, c)
      | Inr name \<Rightarrow>
          (let (cbdict, r1) = dd_get [] (cbs c) key;
               c1 = c\<lparr>cbs := r1\<rparr>
           in (case ncb_of name (map fst cbdict) of
                 Inl e \<Rightarrow> (Inl e, c1)
               | Inr ncb \<Rightarrow>
                   (let cbkey = cbkey_of name ncb
                    in (Inr (cbkey @ ''__'' @ key),
                        c1\<lparr>cbs := AList.update key
                                     (AList.update cbkey (Partial name kwargs) cbdict) r1\<rparr>)))))"

subsection \<open>Enumerating and removing\<close>

text \<open>\<^verbatim>\<open>_click_container._get.attached_callbacks\<close>\<close>

definition click_attached_callbacks :: "'v click_cbs \<Rightarrow> string list" where
  "click_attached_callbacks r =
     concat (map (\<lambda>(ds, dsdict).
       concat (map (\<lambda>(b, bdict).
         map (\<lambda>name. name @ ''__'' @ ds @ ''__'' @ py_str b) (map fst bdict)) dsdict)) r)"

text \<open>\<^verbatim>\<open>keypress_container._get.attached_callbacks\<close>\<close>

definition keypress_attached_callbacks :: "'v keypress_cbs \<Rightarrow> string list" where
  "keypress_attached_callbacks r =
     concat (map (\<lambda>(key, cbdict). map (\<lambda>name. name @ ''__'' @ key) (map fst cbdict)) r)"

text \<open>
  The end of both \<^verbatim>\<open>remove\<close>s, after \<^verbatim>\<open>del\<close>: the cleanup method
  \<^verbatim>\<open>_<fname>_cleanup\<close> of the callback class is called when the class has one.
\<close>

definition call_cleanup :: "string \<Rightarrow> 'r container \<Rightarrow> 'r container" where
  "call_cleanup name c =
     (let fname = hd (rsplit1 name);
          hook = ''_'' @ fname @ ''_cleanup''
      in if hook \<in> set (cb_attrs c) then c\<lparr>cleanups := cleanups c @ [hook]\<rparr> else c)"

text \<open>
  \<^verbatim>\<open>_click_container.remove(ID=None)\<close>. The names \<^verbatim>\<open>name, ds, b\<close> are bound only
  under \<^verbatim>\<open>if ID is not None\<close>, and the unpacking needs exactly three parts.
\<close>

definition click_remove :: "string option \<Rightarrow> 'v click_container \<Rightarrow> error + 'v click_container" where
  "click_remove ID c =
     (case ID of
        None \<Rightarrow> Inl NameError
      | Some s \<Rightarrow>
          (case split_sep s of
             [name, ds, b] \<Rightarrow>
               (case map_of (cbs c) ds of
                  None \<Rightarrow> Inr c
                | Some dsdict \<Rightarrow>
                    (case py_int b of
                       Inl e \<Rightarrow> Inl e
                     | Inr button \<Rightarrow>
                         (case map_of dsdict button of
                            None \<Rightarrow> Inr c
                          | Some bdict \<Rightarrow>
                              if name \<in> fst ` set bdict then
                                Inr (call_cleanup name
                                  (c\<lparr>cbs := put_bucket ds button (AList.delete name bdict) (cbs c)\<rparr>))
                              else Inr c)))
           | _ \<Rightarrow> Inl ValueError))"

text \<open>\<^verbatim>\<open>keypress_container.remove(ID=None)\<close>: the unpacking needs exactly two parts.\<close>

definition keypress_remove ::
  "string option \<Rightarrow> 'v keypress_container \<Rightarrow> error + 'v keypress_container" where
  "keypress_remove ID c =
     (case ID of
        None \<Rightarrow> Inl NameError
      | Some s \<Rightarrow>
          (case split_sep s of
             [name, key] \<Rightarrow>
               (case map_of (cbs c) key of
                  None \<Rightarrow> Inr c
                | Some cbdict \<Rightarrow>
                    if name \<in> fst ` set cbdict then
                      Inr (call_cleanup name
                        (c\<lparr>cbs := AList.update key (AList.delete name cbdict) (cbs c)\<rparr>))
                    else Inr c)
           | _ \<Rightarrow> Inl ValueError))"

subsection \<open>Reading the registry\<close>

text \<open>\<^verbatim>\<open>"__".join(parts)\<close>, the inverse of \<^verbatim>\<open>split("__")\<close>.\<close>

fun join_sep :: "string list \<Rightarrow> string" where
  "join_sep [] = []"
| "join_sep [p] = p"
| "join_sep (p # q # ps) = p @ ''__'' @ join_sep (q # ps)"

text \<open>
  The entries attached under one classification, \<^verbatim>\<open>cbs.get(ds, {}).get(button, {})\<close>
  and \<^verbatim>\<open>cbs.get(key, {})\<close>: reading does not create a level that is missing.
\<close>

definition click_bucket :: "'v click_cbs \<Rightarrow> string \<Rightarrow> int \<Rightarrow> 'v bucket" where
  "click_bucket r ds button =
     (case map_of r ds of
        None \<Rightarrow> []
      | Some dsdict \<Rightarrow> (case map_of dsdict button of None \<Rightarrow> [] | Some d \<Rightarrow> d))"

definition keypress_bucket :: "'v keypress_cbs \<Rightarrow> string \<Rightarrow> 'v bucket" where
  "keypress_bucket r key = (case map_of r key of None \<Rightarrow> [] | Some d \<Rightarrow> d)"

section \<open>Properties of the string and dictionary operations\<close>

lemma digit_val_digit_char: "d < 10 \<Longrightarrow> digit_val (digit_char d) = Some d"
  by (simp add: digit_val_def digit_char_def)

lemma of_char_digit_char: "d < 10 \<Longrightarrow> (of_char (digit_char d) :: nat) = 48 + d"
  by (simp add: digit_char_def)

lemma digit_char_not_us: "d < 10 \<Longrightarrow> digit_char d \<noteq> CHR ''_''"
proof
  assume a: "d < 10" and e: "digit_char d = CHR ''_''"
  from e have "(of_char (digit_char d) :: nat) = of_char CHR ''_''" by simp
  with a show False by (simp add: of_char_digit_char)
qed

lemma digit_char_not_minus: "d < 10 \<Longrightarrow> digit_char d \<noteq> CHR ''-''"
proof
  assume a: "d < 10" and e: "digit_char d = CHR ''-''"
  from e have "(of_char (digit_char d) :: nat) = of_char CHR ''-''" by simp
  with a show False by (simp add: of_char_digit_char)
qed

lemma nat_of_digits_snoc:
  "nat_of_digits acc (xs @ [c]) =
     (case nat_of_digits acc xs of None \<Rightarrow> None
      | Some a \<Rightarrow> (case digit_val c of None \<Rightarrow> None | Some d \<Rightarrow> Some (10 * a + d)))"
  by (induction xs arbitrary: acc) (auto split: option.splits)

lemma nat_of_digits_digits: "nat_of_digits 0 (digits n) = Some n"
proof (induction n rule: digits.induct)
  case (1 n)
  show ?case
  proof (cases "n < 10")
    case True
    then show ?thesis by (simp add: digits.simps[of n] digit_val_digit_char)
  next
    case False
    with 1 have "nat_of_digits 0 (digits (n div 10)) = Some (n div 10)" by simp
    with False show ?thesis
      by (simp add: digits.simps[of n] nat_of_digits_snoc digit_val_digit_char)
  qed
qed

lemma digits_no_us: "CHR ''_'' \<notin> set (digits n)"
proof (induction n rule: digits.induct)
  case (1 n)
  show ?case
  proof (cases "n < 10")
    case True
    then show ?thesis using digit_char_not_us[of n] by (simp add: digits.simps[of n])
  next
    case False
    with 1 have "CHR ''_'' \<notin> set (digits (n div 10))" by simp
    with False show ?thesis using digit_char_not_us[of "n mod 10"]
      by (simp add: digits.simps[of n])
  qed
qed

lemma digits_nonempty: "digits n \<noteq> []"
  by (subst digits.simps) simp

lemma hd_digits_not_minus: "hd (digits n) \<noteq> CHR ''-''"
proof (induction n rule: digits.induct)
  case (1 n)
  show ?case
  proof (cases "n < 10")
    case True
    then show ?thesis using digit_char_not_minus[of n] by (simp add: digits.simps[of n])
  next
    case False
    with 1 have "hd (digits (n div 10)) \<noteq> CHR ''-''" by simp
    with False show ?thesis using digits_nonempty[of "n div 10"]
      by (simp add: digits.simps[of n])
  qed
qed

lemma py_int_py_str: "py_int (py_str i) = Inr i"
proof (cases "i < 0")
  case True
  then show ?thesis
    by (simp add: py_int_def py_str_def digits_nonempty nat_of_digits_digits)
next
  case False
  obtain c cs where d: "digits (nat i) = c # cs"
    using digits_nonempty[of "nat i"] by (cases "digits (nat i)") auto
  with hd_digits_not_minus[of "nat i"] have "c \<noteq> CHR ''-''" by simp
  moreover have "nat_of_digits 0 (c # cs) = Some (nat i)"
    using nat_of_digits_digits[of "nat i"] d by simp
  ultimately show ?thesis using False d
    by (simp add: py_int_def py_str_def)
qed

lemma py_str_no_us: "CHR ''_'' \<notin> set (py_str i)"
  by (simp add: py_str_def digits_no_us)

lemma rsplit1_snoc: "CHR ''_'' \<notin> set t \<Longrightarrow> rsplit1 (s @ ''_'' @ t) = [s, t]"
proof -
  assume a: "CHR ''_'' \<notin> set t"
  have r: "rev (s @ ''_'' @ t) = rev t @ CHR ''_'' # rev s" by simp
  have tw: "takeWhile (\<lambda>c. c \<noteq> CHR ''_'') (rev t @ CHR ''_'' # rev s) = rev t"
    using a by (auto simp add: takeWhile_tail)
  have dw: "dropWhile (\<lambda>c. c \<noteq> CHR ''_'') (rev t @ CHR ''_'' # rev s) = CHR ''_'' # rev s"
    using a by (auto simp add: dropWhile_append3)
  show ?thesis unfolding rsplit1_def r Let_def tw dw by simp
qed

lemma startswith_append: "startswith (p @ s) p"
  by (simp add: startswith_def)

lemma rsplit1_cases:
  "rsplit1 s = [s] \<or> (\<exists>a b. rsplit1 s = [a, b] \<and> s = a @ ''_'' @ b \<and> CHR ''_'' \<notin> set b)"
proof (cases "dropWhile (\<lambda>c. c \<noteq> CHR ''_'') (rev s) = []")
  case True
  then show ?thesis by (simp add: rsplit1_def)
next
  case False
  let ?P = "\<lambda>c. c \<noteq> CHR ''_''"
  from False obtain y ys where d: "dropWhile ?P (rev s) = y # ys"
    by (cases "dropWhile ?P (rev s)") auto
  have "\<not> ?P (hd (dropWhile ?P (rev s)))" using False by (rule hd_dropWhile)
  with d have y: "y = CHR ''_''" by simp
  have "rev s = takeWhile ?P (rev s) @ dropWhile ?P (rev s)" by simp
  then have "rev s = takeWhile ?P (rev s) @ CHR ''_'' # ys" using d y by simp
  then have "rev (rev s) = rev (takeWhile ?P (rev s) @ CHR ''_'' # ys)" by simp
  then have s: "s = rev ys @ ''_'' @ rev (takeWhile ?P (rev s))" by simp
  have n: "CHR ''_'' \<notin> set (rev (takeWhile ?P (rev s)))"
    using set_takeWhileD[of "CHR ''_''" ?P "rev s"] by auto
  have "rsplit1 s = [rev ys, rev (takeWhile ?P (rev s))]"
    unfolding rsplit1_def Let_def d by simp
  with s n show ?thesis by blast
qed

lemma split_sep_nonempty: "split_sep s \<noteq> []"
  by (induction s rule: split_sep.induct) (auto split: list.splits)

lemma join_sep_Cons: "ps \<noteq> [] \<Longrightarrow> join_sep ((a # p) # ps) = a # join_sep (p # ps)"
  by (cases ps) auto

lemma join_split: "join_sep (split_sep s) = s"
proof (induction s rule: split_sep.induct)
  case 1 show ?case by simp
next
  case (2 c) show ?case by simp
next
  case (3 a b cs)
  show ?case
  proof (cases "a = CHR ''_'' \<and> b = CHR ''_''")
    case True
    with 3 have "join_sep (split_sep cs) = cs" by simp
    with True show ?thesis using split_sep_nonempty[of cs]
      by (cases "split_sep cs") auto
  next
    case False
    with 3 have ih: "join_sep (split_sep (b # cs)) = b # cs" by simp
    obtain p ps where s: "split_sep (b # cs) = p # ps"
      using split_sep_nonempty[of "b # cs"] by (cases "split_sep (b # cs)") auto
    have "join_sep ((a # p) # ps) = a # join_sep (p # ps)" by (cases ps) auto
    with False s ih show ?thesis by auto
  qed
qed

lemma split_sep3: "split_sep s = [a, b, c] \<Longrightarrow> s = a @ ''__'' @ b @ ''__'' @ c"
  using join_split[of s] by simp

lemma split_sep2: "split_sep s = [a, b] \<Longrightarrow> s = a @ ''__'' @ b"
  using join_split[of s] by simp

lemma ncb_of_mem:
  "ncb_of name ks = Inr ncb \<Longrightarrow> k \<in> set ks \<Longrightarrow> startswith k name \<Longrightarrow>
   \<exists>a b n. rsplit1 k = [a, b] \<and> py_int b = Inr n \<and> n \<in> set ncb"
proof (induction ks arbitrary: ncb)
  case Nil
  then show ?case by simp
next
  case (Cons i ks)
  show ?case
  proof (cases "startswith i name")
    case False
    with Cons.prems have "ncb_of name ks = Inr ncb" "k \<in> set ks" by auto
    with Cons.IH Cons.prems(3) show ?thesis by blast
  next
    case True
    with Cons.prems(1) obtain a b n ns where
      r: "rsplit1 i = [a, b]" and p: "py_int b = Inr n" and
      t: "ncb_of name ks = Inr ns" and e: "ncb = n # ns"
      by (auto split: list.splits sum.splits)
    show ?thesis
    proof (cases "k = i")
      case True
      with r p e show ?thesis by auto
    next
      case False
      with Cons.prems(2) have "k \<in> set ks" by simp
      from Cons.IH[OF t this Cons.prems(3)] e show ?thesis by auto
    qed
  qed
qed

lemma ncb_of_Nil:
  "ncb_of name ks = Inr [] \<longleftrightarrow> (\<forall>k \<in> set ks. \<not> startswith k name)"
  by (induction ks) (auto split: list.splits sum.splits)

lemma ncb_of_append:
  "ncb_of name (ks @ ks') =
     (case ncb_of name ks of Inl e \<Rightarrow> Inl e
      | Inr ns \<Rightarrow> (case ncb_of name ks' of Inl e \<Rightarrow> Inl e | Inr ns' \<Rightarrow> Inr (ns @ ns')))"
  by (induction ks) (auto split: list.splits sum.splits)

lemma rsplit1_key: "rsplit1 (name @ CHR ''_'' # py_str n) = [name, py_str n]"
  using rsplit1_snoc[OF py_str_no_us, of name n] by simp

lemma ncb_of_key: "ncb_of name [name @ ''_'' @ py_str n] = Inr [n]"
  by (simp add: startswith_append rsplit1_key py_int_py_str)

lemma cbkey_fresh:
  assumes "ncb_of name ks = Inr ncb"
  shows "cbkey_of name ncb \<notin> set ks"
proof
  let ?N = "if length ncb > 0 then Max (set ncb) + 1 else 0"
  assume m: "cbkey_of name ncb \<in> set ks"
  have k: "cbkey_of name ncb = name @ ''_'' @ py_str ?N" by (simp add: cbkey_of_def)
  have "startswith (cbkey_of name ncb) name" unfolding k by (rule startswith_append)
  from ncb_of_mem[OF assms m this] obtain a b n where
    r: "rsplit1 (cbkey_of name ncb) = [a, b]" and p: "py_int b = Inr n" and i: "n \<in> set ncb"
    by blast
  have "rsplit1 (cbkey_of name ncb) = [name, py_str ?N]"
    unfolding k by (rule rsplit1_snoc) (rule py_str_no_us)
  with r have "b = py_str ?N" by simp
  with p have n: "n = ?N" by (simp add: py_int_py_str)
  from i have ne: "ncb \<noteq> []" by auto
  from i have "n \<le> Max (set ncb)" by simp
  with n ne show False by simp
qed

lemma update_fresh: "k \<notin> fst ` set d \<Longrightarrow> AList.update k v d = d @ [(k, v)]"
  by (induction d) auto

lemma map_of_snoc: "map_of (d @ [(k, v)]) k' = (case map_of d k' of Some w \<Rightarrow> Some w | None \<Rightarrow> if k' = k then Some v else None)"
  by (induction d) auto

lemma dd_get_fst: "fst (dd_get dflt d k) = (case map_of d k of None \<Rightarrow> dflt | Some v \<Rightarrow> v)"
  by (simp add: dd_get_def split: option.splits)

lemma dd_get_map_of:
  "map_of (snd (dd_get dflt d k)) k' =
     (if k' = k then Some (fst (dd_get dflt d k)) else map_of d k')"
  by (auto simp add: dd_get_def map_add_def split: option.splits)

lemma get_bucket_fst: "fst (get_bucket ds b r) = click_bucket r ds b"
  by (auto simp add: get_bucket_def click_bucket_def dd_get_def split: option.splits prod.splits)

lemma get_bucket_present:
  "\<exists>dd. map_of (snd (get_bucket ds b r)) ds = Some dd \<and> map_of dd b = Some (click_bucket r ds b)"
  by (auto simp add: get_bucket_def click_bucket_def dd_get_def AList.update_conv' map_add_def
      split: option.splits prod.splits)

lemma get_bucket_same:
  "click_bucket (snd (get_bucket ds b r)) ds' b' = click_bucket r ds' b'"
  by (auto simp add: get_bucket_def click_bucket_def dd_get_def AList.update_conv' map_add_def
      split: option.splits prod.splits)

lemma put_bucket_bucket:
  "map_of r ds = Some dd \<Longrightarrow>
   click_bucket (put_bucket ds b d r) ds' b' =
     (if ds' = ds \<and> b' = b then d else click_bucket r ds' b')"
  by (auto simp add: put_bucket_def click_bucket_def AList.update_conv' split: option.splits)

lemma get_bucket_idem:
  "map_of r ds = Some dd \<Longrightarrow> map_of dd b = Some d \<Longrightarrow> get_bucket ds b r = (d, r)"
  by (simp add: get_bucket_def dd_get_def AList.update_triv)

lemma click_add_callback_Inr:
  assumes "click_add_callback cb dc b kw c = (Inr ident, c')"
  shows "\<exists>name ncb. resolve (cb_attrs c) cb = Inr name \<and>
           ncb_of name (map fst (click_bucket (cbs c) (ds_of dc) b)) = Inr ncb \<and>
           (name \<in> set multi_cb_functions \<or> ncb = []) \<and>
           ident = cbkey_of name ncb @ ''__'' @ ds_of dc @ ''__'' @ py_str b \<and>
           c' = c\<lparr>cbs := put_bucket (ds_of dc) b
                   (AList.update (cbkey_of name ncb) (Partial name kw)
                      (click_bucket (cbs c) (ds_of dc) b))
                   (snd (get_bucket (ds_of dc) b (cbs c)))\<rparr>"
  using assms
  by (auto simp add: click_add_callback_def Let_def case_prod_beta get_bucket_fst
      split: if_splits sum.splits)

lemma keypress_add_callback_Inr:
  assumes "keypress_add_callback cb key kw c = (Inr ident, c')"
  shows "\<exists>name ncb. resolve (cb_attrs c) cb = Inr name \<and>
           ncb_of name (map fst (keypress_bucket (cbs c) key)) = Inr ncb \<and>
           ident = cbkey_of name ncb @ ''__'' @ key \<and>
           c' = c\<lparr>cbs := AList.update key
                   (AList.update (cbkey_of name ncb) (Partial name kw)
                      (keypress_bucket (cbs c) key))
                   (snd (dd_get [] (cbs c) key))\<rparr>"
  using assms
  by (auto simp add: keypress_add_callback_def Let_def case_prod_beta dd_get_fst keypress_bucket_def
      split: if_splits sum.splits option.splits)

lemma ncb_of_less:
  assumes "ncb_of name ks = Inr ncb" "k \<in> set ks" "startswith k name"
  shows "\<exists>a s n. rsplit1 k = [a, s] \<and> py_int s = Inr n \<and>
           n < (if length ncb > 0 then Max (set ncb) + 1 else 0)"
proof -
  from ncb_of_mem[OF assms] obtain a s n where
    r: "rsplit1 k = [a, s]" "py_int s = Inr n" and i: "n \<in> set ncb" by blast
  from i have "ncb \<noteq> []" "n \<le> Max (set ncb)" by auto
  with r show ?thesis by auto
qed

lemma click_attach_bucket:
  assumes "click_add_callback cb dc b kw c = (Inr ident, c')"
  shows "\<exists>name ncb. resolve (cb_attrs c) cb = Inr name \<and>
           ncb_of name (map fst (click_bucket (cbs c) (ds_of dc) b)) = Inr ncb \<and>
           (name \<in> set multi_cb_functions \<or> ncb = []) \<and>
           ident = cbkey_of name ncb @ ''__'' @ ds_of dc @ ''__'' @ py_str b \<and>
           cbkey_of name ncb \<notin> fst ` set (click_bucket (cbs c) (ds_of dc) b) \<and>
           click_bucket (cbs c') (ds_of dc) b =
             click_bucket (cbs c) (ds_of dc) b @ [(cbkey_of name ncb, Partial name kw)] \<and>
           cb_attrs c' = cb_attrs c"
proof -
  let ?d = "click_bucket (cbs c) (ds_of dc) b"
  from click_add_callback_Inr[OF assms] obtain name ncb where
    r: "resolve (cb_attrs c) cb = Inr name" and
    n: "ncb_of name (map fst ?d) = Inr ncb" and
    m: "name \<in> set multi_cb_functions \<or> ncb = []" and
    i: "ident = cbkey_of name ncb @ ''__'' @ ds_of dc @ ''__'' @ py_str b" and
    c': "c' = c\<lparr>cbs := put_bucket (ds_of dc) b
                   (AList.update (cbkey_of name ncb) (Partial name kw) ?d)
                   (snd (get_bucket (ds_of dc) b (cbs c)))\<rparr>"
    by blast
  from cbkey_fresh[OF n] have f: "cbkey_of name ncb \<notin> fst ` set ?d" by simp
  obtain dd where "map_of (snd (get_bucket (ds_of dc) b (cbs c))) (ds_of dc) = Some dd"
    using get_bucket_present[of "ds_of dc" b "cbs c"] by blast
  from put_bucket_bucket[OF this] c'
  have "click_bucket (cbs c') (ds_of dc) b = AList.update (cbkey_of name ncb) (Partial name kw) ?d"
    by simp
  with update_fresh[OF f] have
    "click_bucket (cbs c') (ds_of dc) b = ?d @ [(cbkey_of name ncb, Partial name kw)]" by simp
  moreover from c' have "cb_attrs c' = cb_attrs c" by simp
  ultimately show ?thesis using r n m i f by blast
qed

lemma keypress_attach_bucket:
  assumes "keypress_add_callback cb key kw c = (Inr ident, c')"
  shows "\<exists>name ncb. resolve (cb_attrs c) cb = Inr name \<and>
           ncb_of name (map fst (keypress_bucket (cbs c) key)) = Inr ncb \<and>
           ident = cbkey_of name ncb @ ''__'' @ key \<and>
           cbkey_of name ncb \<notin> fst ` set (keypress_bucket (cbs c) key) \<and>
           keypress_bucket (cbs c') key =
             keypress_bucket (cbs c) key @ [(cbkey_of name ncb, Partial name kw)] \<and>
           cb_attrs c' = cb_attrs c"
proof -
  let ?d = "keypress_bucket (cbs c) key"
  from keypress_add_callback_Inr[OF assms] obtain name ncb where
    r: "resolve (cb_attrs c) cb = Inr name" and
    n: "ncb_of name (map fst ?d) = Inr ncb" and
    i: "ident = cbkey_of name ncb @ ''__'' @ key" and
    c': "c' = c\<lparr>cbs := AList.update key
                   (AList.update (cbkey_of name ncb) (Partial name kw) ?d)
                   (snd (dd_get [] (cbs c) key))\<rparr>"
    by blast
  from cbkey_fresh[OF n] have f: "cbkey_of name ncb \<notin> fst ` set ?d" by simp
  from c' have "keypress_bucket (cbs c') key = AList.update (cbkey_of name ncb) (Partial name kw) ?d"
    by (simp add: keypress_bucket_def AList.update_conv')
  with update_fresh[OF f] have
    "keypress_bucket (cbs c') key = ?d @ [(cbkey_of name ncb, Partial name kw)]" by simp
  moreover from c' have "cb_attrs c' = cb_attrs c" by simp
  ultimately show ?thesis using r n i f by blast
qed

section \<open>Removal without an identity\<close>

text \<open>
  Claim C10. Calling \<^verbatim>\<open>remove\<close> with its default \<^verbatim>\<open>ID=None\<close> is not a no-op: on
  every container, of the click/pick kind and of the keypress kind, the call raises
  \<open>NameError\<close> (the unbound local \<^verbatim>\<open>ds\<close>, respectively \<^verbatim>\<open>key\<close>, is read).
\<close>

theorem remove_without_ID_raises:
  "click_remove None c = Inl NameError \<and> keypress_remove None k = Inl NameError"
  by (simp add: click_remove_def keypress_remove_def)

end
